theory Spec2Isabelle
  imports Complex_Main "HOL-Library.Word"
begin

section \<open>Data model\<close>

text \<open>
  The camera host of the repository is the React component \<open>CameraView\<close> together with
  the service function \<open>analyzeImage\<close>. The component is modelled as a record of its state
  cells and refs; every handler, effect and promise continuation of the component is a
  function on that record. Time is read from \<open>Date.now()\<close> (integer milliseconds) and is
  passed to the handlers as an \<open>int\<close>.

  JavaScript strings are sequences of UTF-16 code units; every literal of the source lies in
  Latin-1, so a literal is written here with one \<open>char\<close> per code unit (\<open>CHR 0xE1\<close> is
  a-acute, \<open>CHR 0xE3\<close> a-tilde, \<open>CHR 0xE2\<close> a-circumflex, \<open>CHR 0xE9\<close> e-acute).
\<close>

type_synonym stream = nat \<comment> \<open>identity of a \<open>MediaStream\<close> object\<close>
type_synonym call = nat \<comment> \<open>identity of an inbound \<open>MediaConnection\<close> object\<close>
type_synonym frame = "8 word list" \<comment> \<open>\<open>ImageData.data\<close>, a \<open>Uint8ClampedArray\<close> of RGBA bytes\<close>

record DetectionEvent =
  event_id :: string
  timestamp :: int
  imageDataUrl :: string
  analysis :: "string option"
  isAnalyzing :: bool

text \<open>A value caught by a \<open>catch\<close> clause: an \<open>Error\<close> object with its name and message, or
  any other value.\<close>

datatype thrown = JsError (err_name: string) (err_message: string) | NonError

text \<open>What the call \<open>ai.models.generateContent\<close> does: it fulfils with a response object
  (possibly a falsy one, possibly one whose \<open>text\<close> is undefined or empty) or it rejects.\<close>

datatype response = NoResponse | Response "string option"
datatype api_outcome = Fulfilled response | Rejected thrown

text \<open>An analysis call that has been issued and not yet settled: the continuation of
  \<open>handleMotionDetected\<close> waiting at its \<open>await\<close>, with the values its closure holds.\<close>

record analysis_call =
  call_event_id :: string
  call_image :: string
  call_isMonitoring :: bool

record CameraView =
  isMonitoring :: bool
  events :: "DetectionEvent list"
  status :: string
  error :: "string option"
  hasCameraPermission :: "bool option"
  lastDetectionTime :: int
  mediaStreamRef :: "stream option"
  pendingCalls :: "call list"
  videoSrc :: "stream option" \<comment> \<open>\<open>videoRef.current.srcObject\<close>\<close>
  oldCanvas :: frame \<comment> \<open>pixel data of the canvas behind \<open>oldCanvasRef\<close>\<close>
  frameRequested :: bool \<comment> \<open>the callback registered by \<open>requestAnimationFrame\<close> is pending\<close>
  answered :: "(call \<times> stream) list" \<comment> \<open>log of the \<open>call.answer(stream)\<close> effects\<close>
  stoppedStreams :: "stream list" \<comment> \<open>log of the streams whose tracks were stopped\<close>
  cameraRequests :: nat \<comment> \<open>\<open>getUserMedia\<close> promises not yet settled\<close>
  analysisCalls :: "analysis_call list" \<comment> \<open>\<open>analyzeImage\<close> promises not yet settled\<close>
  mediaDevicesSupported :: bool \<comment> \<open>\<open>navigator.mediaDevices.getUserMedia\<close> exists\<close>

definition MOTION_SENSITIVITY :: real where
  "MOTION_SENSITIVITY = 50"

definition COOLDOWN_SECONDS :: int where
  "COOLDOWN_SECONDS = 10"

section \<open>Frame differencer\<close>

text \<open>
  The loop of \<open>drawAndCompare\<close> reads two typed arrays by index. A read beyond the end of
  a typed array yields \<open>undefined\<close>, and arithmetic on \<open>undefined\<close> yields \<open>NaN\<close>, which
  stays \<open>NaN\<close> under every later addition and fails every comparison: a number that may
  be \<open>NaN\<close> is an \<open>option\<close>, with \<open>None\<close> for \<open>NaN\<close>. The sum of the loop is an integer
  far below \<open>2 ^ 53\<close>, so it is exact; the final quotient is taken in the reals.
\<close>

definition px :: "frame \<Rightarrow> nat \<Rightarrow> int option" where
  "px d i = (if i < length d then Some (uint (d ! i)) else None)"

definition abs_sub :: "int option \<Rightarrow> int option \<Rightarrow> int option" where
  "abs_sub a b = (case (a, b) of (Some x, Some y) \<Rightarrow> Some \<bar>x - y\<bar> | _ \<Rightarrow> None)"

definition plus_num :: "int option \<Rightarrow> int option \<Rightarrow> int option" where
  "plus_num a b = (case (a, b) of (Some x, Some y) \<Rightarrow> Some (x + y) | _ \<Rightarrow> None)"

function frame_diff_loop :: "frame \<Rightarrow> frame \<Rightarrow> nat \<Rightarrow> int option \<Rightarrow> int option" where
  "frame_diff_loop currentData oldData i diff =
     (if i < length currentData
      then frame_diff_loop currentData oldData (i + 4)
             (plus_num diff
                (plus_num
                   (plus_num (abs_sub (px currentData i) (px oldData i))
                             (abs_sub (px currentData (i + 1)) (px oldData (i + 1))))
                   (abs_sub (px currentData (i + 2)) (px oldData (i + 2)))))
      else diff)"
  by pat_completeness auto
termination
  by (relation "measure (\<lambda>(currentData, oldData, i, diff). length currentData - i)") auto

declare frame_diff_loop.simps [simp del]

text \<open>The score \<open>diff / (currentData.length / 4)\<close>; \<open>0 / 0\<close> is \<open>NaN\<close>.\<close>

definition motion_score :: "frame \<Rightarrow> frame \<Rightarrow> real option" where
  "motion_score currentData oldData =
     (case frame_diff_loop currentData oldData 0 (Some 0) of
        None \<Rightarrow> None
      | Some diff \<Rightarrow>
          if length currentData = 0 then None
          else Some (real_of_int diff / (real (length currentData) / 4)))"

definition motion_detected :: "frame \<Rightarrow> frame \<Rightarrow> bool" where
  "motion_detected currentData oldData =
     (case motion_score currentData oldData of
        None \<Rightarrow> False
      | Some score \<Rightarrow> score > MOTION_SENSITIVITY)"

text \<open>The score as the specification words it: the sum over all pixels of the absolute
  differences of the red, green and blue channels, divided by the number of pixels.\<close>

definition pixel_delta :: "frame \<Rightarrow> frame \<Rightarrow> nat \<Rightarrow> int" where
  "pixel_delta a b p =
     \<bar>uint (a ! (4 * p)) - uint (b ! (4 * p))\<bar>
     + \<bar>uint (a ! (4 * p + 1)) - uint (b ! (4 * p + 1))\<bar>
     + \<bar>uint (a ! (4 * p + 2)) - uint (b ! (4 * p + 2))\<bar>"

definition spec_score :: "frame \<Rightarrow> frame \<Rightarrow> real" where
  "spec_score a b =
     real_of_int (sum_list (map (pixel_delta a b) [0..<length a div 4]))
       / real (length a div 4)"

text \<open>Every colour channel (every byte that is not an alpha byte) differs by exactly
  \<open>\<Delta>\<close> between the two buffers.\<close>

definition differs_uniformly :: "frame \<Rightarrow> frame \<Rightarrow> int \<Rightarrow> bool" where
  "differs_uniformly a b \<Delta> =
     list_all (\<lambda>i. i mod 4 = 3 \<or> \<bar>uint (a ! i) - uint (b ! i)\<bar> = \<Delta>) [0..<length a]"

section \<open>The analysis service\<close>

text \<open>
  \<open>analyzeImage\<close> of \<open>services/geminiService.ts\<close>. The body of its \<open>try\<close> block either
  returns the text of the response or throws; \<open>Inl\<close> is a throw, \<open>Inr\<close> a returned value.
  Building the request part (\<open>fileToGenerativePart\<close>) splits a string and cannot throw; the
  request itself is the environment's, whose answer is the \<open>api_outcome\<close>.
\<close>

definition empty_response_message :: string where
  "empty_response_message =
     ''A resposta da API est'' @ [CHR 0xE1] @ '' vazia ou malformada.''"

definition analyzeImage_try :: "string \<Rightarrow> api_outcome \<Rightarrow> thrown + string" where
  "analyzeImage_try img outcome =
     (case outcome of
        Rejected e \<Rightarrow> Inl e
      | Fulfilled NoResponse \<Rightarrow> Inl (JsError ''Error'' empty_response_message)
      | Fulfilled (Response None) \<Rightarrow> Inl (JsError ''Error'' empty_response_message)
      | Fulfilled (Response (Some text)) \<Rightarrow>
          if text \<noteq> [] then Inr text
          else Inl (JsError ''Error'' empty_response_message))"

definition analyzeImage :: "string \<Rightarrow> api_outcome \<Rightarrow> thrown + string" where
  "analyzeImage img outcome =
     (case analyzeImage_try img outcome of
        Inr text \<Rightarrow> Inr text
      | Inl (JsError n message) \<Rightarrow>
          Inr (''Erro na an'' @ [CHR 0xE1] @ ''lise da IA: '' @ message)
      | Inl NonError \<Rightarrow>
          Inr (''Erro desconhecido na an'' @ [CHR 0xE1] @ ''lise da IA.''))"

text \<open>The analysis call fails: the transport rejects, or the response is absent, has no
  text, or has an empty text.\<close>

definition failed :: "api_outcome \<Rightarrow> bool" where
  "failed outcome =
     (case outcome of
        Rejected e \<Rightarrow> True
      | Fulfilled NoResponse \<Rightarrow> True
      | Fulfilled (Response None) \<Rightarrow> True
      | Fulfilled (Response (Some text)) \<Rightarrow> text = [])"

section \<open>Cooldown gate and analysis pipeline\<close>

text \<open>\<open>Number.prototype.toString\<close> on an integer (decimal digits, a minus sign for a
  negative one; the values of \<open>Date.now()\<close> are far below \<open>10 ^ 21\<close>, where JavaScript
  switches to exponent notation).\<close>

definition digit_char :: "nat \<Rightarrow> char" where
  "digit_char d = ''0123456789'' ! d"

fun digits :: "nat \<Rightarrow> string" where
  "digits n = (if n < 10 then [digit_char n] else digits (n div 10) @ [digit_char (n mod 10)])"

declare digits.simps [simp del]

definition toString :: "int \<Rightarrow> string" where
  "toString n = (if n < 0 then CHR ''-'' # digits (nat (- n)) else digits (nat n))"

definition newEvent :: "int \<Rightarrow> int \<Rightarrow> string \<Rightarrow> DetectionEvent" where
  "newEvent now date img =
     \<lparr>event_id = toString now, timestamp = date, imageDataUrl = img,
      analysis = None, isAnalyzing = True\<rparr>"

text \<open>
  \<open>handleMotionDetected\<close> runs in two parts. The first runs synchronously inside the
  detection tick: the cooldown test, then (\<open>submit\<close>) the creation of the event and the
  call of \<open>analyzeImage\<close>, at whose \<open>await\<close> the function suspends. \<open>now\<close> is the value of
  \<open>Date.now()\<close> and \<open>date\<close> that of \<open>new Date()\<close>.
\<close>

definition submit :: "int \<Rightarrow> int \<Rightarrow> string \<Rightarrow> CameraView \<Rightarrow> CameraView" where
  "submit now date img s =
     s\<lparr>events := newEvent now date img # events s,
       status := ''Analisando Imagem...'',
       analysisCalls := analysisCalls s @
         [\<lparr>call_event_id = toString now, call_image = img,
           call_isMonitoring = isMonitoring s\<rparr>]\<rparr>"

definition handleMotionDetected :: "int \<Rightarrow> int \<Rightarrow> string \<Rightarrow> CameraView \<Rightarrow> CameraView" where
  "handleMotionDetected now date img s =
     (if now - lastDetectionTime s < COOLDOWN_SECONDS * 1000 then s
      else submit now date img (s\<lparr>lastDetectionTime := now\<rparr>))"

text \<open>The update \<open>p.map(e => e.id === newEvent.id ? {...e, analysis, isAnalyzing: false} : e)\<close>.\<close>

definition setAnalysis :: "string \<Rightarrow> string \<Rightarrow> DetectionEvent list \<Rightarrow> DetectionEvent list" where
  "setAnalysis i description p =
     map (\<lambda>e. if event_id e = i then e\<lparr>analysis := Some description, isAnalyzing := False\<rparr> else e) p"

text \<open>
  The second part of \<open>handleMotionDetected\<close> runs when the promise of \<open>analyzeImage\<close>
  settles: the rest of the \<open>try\<close> block, the \<open>catch\<close> block when \<open>analyzeImage\<close> rejected,
  and the \<open>finally\<close> block, which reads the \<open>isMonitoring\<close> of the closure. The result is
  \<open>Inl\<close> when the promise of \<open>handleMotionDetected\<close> itself rejects.
\<close>

definition resume_try :: "analysis_call \<Rightarrow> api_outcome \<Rightarrow> CameraView \<Rightarrow> thrown + CameraView" where
  "resume_try c outcome s =
     (case analyzeImage (call_image c) outcome of
        Inl apiError \<Rightarrow> Inl apiError
      | Inr description \<Rightarrow>
          Inr (s\<lparr>events := setAnalysis (call_event_id c) description (events s)\<rparr>))"

definition handleMotionDetected_resume ::
    "analysis_call \<Rightarrow> api_outcome \<Rightarrow> CameraView \<Rightarrow> thrown + CameraView" where
  "handleMotionDetected_resume c outcome s =
     (let s1 = (case resume_try c outcome s of
                  Inr s' \<Rightarrow> s'
                | Inl apiError \<Rightarrow>
                    s\<lparr>events := setAnalysis (call_event_id c) ''Falha ao analisar a imagem.'' (events s)\<rparr>);
          s2 = (if call_isMonitoring c then s1\<lparr>status := ''Monitorando...''\<rparr> else s1)
      in Inr (s2\<lparr>analysisCalls := remove1 c (analysisCalls s2)\<rparr>))"

section \<open>Camera lifecycle and stream sessions\<close>

definition cleanupCamera :: "CameraView \<Rightarrow> CameraView" where
  "cleanupCamera s =
     s\<lparr>stoppedStreams :=
         (case mediaStreamRef s of
            Some m \<Rightarrow> stoppedStreams s @ [m]
          | None \<Rightarrow> stoppedStreams s),
       videoSrc := None,
       mediaStreamRef := None\<rparr>"

text \<open>The \<open>catch\<close> block of \<open>setupCamera\<close>.\<close>

definition camera_error_message :: "thrown \<Rightarrow> string" where
  "camera_error_message err =
     (case err of
        JsError n message \<Rightarrow>
          if n = ''NotAllowedError''
          then ''Permiss'' @ [CHR 0xE3] @ ''o para c'' @ [CHR 0xE2] @ ''mera negada.''
          else ''Erro ao acessar c'' @ [CHR 0xE2] @ ''mera: '' @ message
      | NonError \<Rightarrow>
          ''Ocorreu um erro desconhecido ao acessar a c'' @ [CHR 0xE2] @ ''mera.'')"

definition setupCamera_catch :: "thrown \<Rightarrow> CameraView \<Rightarrow> CameraView" where
  "setupCamera_catch err s =
     cleanupCamera (s\<lparr>error := Some (camera_error_message err),
                      hasCameraPermission := Some False\<rparr>)"

text \<open>\<open>setupCamera\<close> up to its \<open>await\<close>: without the media-devices API it throws and
  catches at once, otherwise it requests the camera and suspends.\<close>

definition unsupported_message :: string where
  "unsupported_message =
     ''A API da c'' @ [CHR 0xE2] @ ''mera n'' @ [CHR 0xE3] @ ''o '' @ [CHR 0xE9]
       @ '' suportada neste navegador.''"

definition setupCamera :: "CameraView \<Rightarrow> CameraView" where
  "setupCamera s =
     (let s1 = s\<lparr>error := None\<rparr>
      in if \<not> mediaDevicesSupported s1
         then setupCamera_catch (JsError ''Error'' unsupported_message) s1
         else s1\<lparr>cameraRequests := cameraRequests s1 + 1\<rparr>)"

text \<open>The rest of the \<open>try\<close> block of \<open>setupCamera\<close>, once \<open>getUserMedia\<close> has fulfilled
  with \<open>stream\<close>.\<close>

definition setupCamera_acquired :: "stream \<Rightarrow> CameraView \<Rightarrow> CameraView" where
  "setupCamera_acquired stream s =
     s\<lparr>videoSrc := Some stream,
       mediaStreamRef := Some stream,
       hasCameraPermission := Some True,
       answered := answered s @ map (\<lambda>c. (c, stream)) (pendingCalls s),
       pendingCalls := []\<rparr>"

text \<open>The handler of \<open>peer.on('call', ...)\<close>.\<close>

definition onCall :: "call \<Rightarrow> CameraView \<Rightarrow> CameraView" where
  "onCall c s =
     (case mediaStreamRef s of
        Some m \<Rightarrow> s\<lparr>answered := answered s @ [(c, m)]\<rparr>
      | None \<Rightarrow> s\<lparr>pendingCalls := pendingCalls s @ [c]\<rparr>)"

section \<open>Effects and the detection loop\<close>

text \<open>
  The effect with dependencies \<open>[isMonitoring, setupCamera, cleanupCamera]\<close>: the cleanup
  its previous run returned, then its body.
\<close>

definition camera_effect :: "CameraView \<Rightarrow> CameraView" where
  "camera_effect s =
     (let s0 = cleanupCamera s
      in if isMonitoring s0 then setupCamera s0 else cleanupCamera s0)"

text \<open>
  The effect with dependencies \<open>[isMonitoring, hasCameraPermission, detectionLoop]\<close>: the
  cleanup its previous run returned (cancel the pending frame), then its body. The body
  reads the \<open>hasCameraPermission\<close> of the render it belongs to, passed as \<open>perm\<close>.
\<close>

definition monitoring_effect :: "bool option \<Rightarrow> CameraView \<Rightarrow> CameraView" where
  "monitoring_effect perm s =
     (let s0 = s\<lparr>frameRequested := False\<rparr>
      in if isMonitoring s0 \<and> perm = Some True
         then s0\<lparr>status := ''Monitorando...'', lastDetectionTime := 0, frameRequested := True\<rparr>
         else (let s1 = s0\<lparr>frameRequested := False\<rparr>
               in if \<not> isMonitoring s1 then s1\<lparr>status := ''Parado''\<rparr> else s1))"

text \<open>A state update of \<open>hasCameraPermission\<close> renders again; the monitoring effect runs
  again when the value differs from the one of the previous render.\<close>

definition rerender_permission :: "bool option \<Rightarrow> CameraView \<Rightarrow> CameraView" where
  "rerender_permission prev s =
     (if hasCameraPermission s \<noteq> prev then monitoring_effect (hasCameraPermission s) s else s)"

text \<open>
  The button handler \<open>toggleMonitoring\<close> with the render it causes. React runs the cleanups
  of both effects and then both bodies, in the order of their declaration; the cleanup of
  the second effect only cancels the frame, which the body of the first never touches, so
  the two effects are composed one after the other.
\<close>

definition toggleMonitoring :: "CameraView \<Rightarrow> CameraView" where
  "toggleMonitoring s =
     (let perm = hasCameraPermission s;
          s1 = s\<lparr>isMonitoring := \<not> isMonitoring s\<rparr>;
          s2 = monitoring_effect perm (camera_effect s1)
      in rerender_permission perm s2)"

text \<open>The continuations of \<open>setupCamera\<close> with the render they cause.\<close>

definition cameraAcquired :: "stream \<Rightarrow> CameraView \<Rightarrow> CameraView" where
  "cameraAcquired stream s =
     rerender_permission (hasCameraPermission s)
       ((setupCamera_acquired stream s)\<lparr>cameraRequests := cameraRequests s - 1\<rparr>)"

definition cameraFailed :: "thrown \<Rightarrow> CameraView \<Rightarrow> CameraView" where
  "cameraFailed err s =
     rerender_permission (hasCameraPermission s)
       ((setupCamera_catch err s)\<lparr>cameraRequests := cameraRequests s - 1\<rparr>)"

text \<open>
  \<open>drawAndCompare\<close>. \<open>video\<close> is \<open>None\<close> when the guards return early (no element, no
  context, or \<open>video.readyState\<close> is not 4); otherwise it holds the pixel data of the canvas
  after \<open>ctx.drawImage(video, ...)\<close> and the string \<open>canvas.toDataURL('image/jpeg')\<close>.
  Copying the canvas onto the old canvas makes the old canvas hold the same pixel data.
\<close>

definition drawAndCompare ::
    "int \<Rightarrow> int \<Rightarrow> (frame \<times> string) option \<Rightarrow> CameraView \<Rightarrow> CameraView" where
  "drawAndCompare now date video s =
     (case video of
        None \<Rightarrow> s
      | Some (currentData, jpeg) \<Rightarrow>
          (let oldData = oldCanvas s;
               s1 = (if motion_detected currentData oldData
                     then handleMotionDetected now date jpeg (s\<lparr>status := ''Movimento Detectado!''\<rparr>)
                     else s)
           in s1\<lparr>oldCanvas := currentData\<rparr>))"

definition detectionLoop ::
    "int \<Rightarrow> int \<Rightarrow> (frame \<times> string) option \<Rightarrow> CameraView \<Rightarrow> CameraView" where
  "detectionLoop now date video s =
     (if \<not> isMonitoring s then s
      else (drawAndCompare now date video s)\<lparr>frameRequested := True\<rparr>)"

text \<open>The component after its first render: both canvases are blank, \<open>320 \<times> 240\<close>
  transparent black pixels.\<close>

definition initial :: "bool \<Rightarrow> CameraView" where
  "initial supported =
     \<lparr>isMonitoring = False, events = [], status = ''Parado'', error = None,
      hasCameraPermission = None, lastDetectionTime = 0, mediaStreamRef = None,
      pendingCalls = [], videoSrc = None, oldCanvas = replicate (4 * 320 * 240) 0,
      frameRequested = False, answered = [], stoppedStreams = [], cameraRequests = 0,
      analysisCalls = [], mediaDevicesSupported = supported\<rparr>"

section \<open>Runs of the component\<close>

text \<open>
  Everything that can happen to the mounted component: the user toggles monitoring, a camera
  request settles, a viewer calls, the browser fires the requested animation frame, an
  analysis call settles. An action that cannot happen in the state (no request pending, no
  frame requested, a frame with pixels while the video element has no source) is \<open>None\<close>.
\<close>

datatype action =
    Toggle
  | CameraAcquired stream
  | CameraFailed thrown
  | InboundCall call
  | AnimationFrame int int "(frame \<times> string) option"
  | AnalysisSettled analysis_call api_outcome

fun step :: "action \<Rightarrow> CameraView \<Rightarrow> CameraView option" where
  "step Toggle s = Some (toggleMonitoring s)"
| "step (CameraAcquired stream) s =
     (if cameraRequests s = 0 then None else Some (cameraAcquired stream s))"
| "step (CameraFailed err) s =
     (if cameraRequests s = 0 then None else Some (cameraFailed err s))"
| "step (InboundCall c) s = Some (onCall c s)"
| "step (AnimationFrame now date video) s =
     (if frameRequested s \<and> (video = None \<or> videoSrc s \<noteq> None)
      then Some (detectionLoop now date video (s\<lparr>frameRequested := False\<rparr>))
      else None)"
| "step (AnalysisSettled c outcome) s =
     (if c \<in> set (analysisCalls s)
      then (case handleMotionDetected_resume c outcome s of
              Inr s' \<Rightarrow> Some s'
            | Inl e \<Rightarrow> None)
      else None)"

fun run :: "action list \<Rightarrow> CameraView \<Rightarrow> CameraView option" where
  "run [] s = Some s"
| "run (a # as) s = (case step a s of None \<Rightarrow> None | Some s' \<Rightarrow> run as s')"

text \<open>The viewer calls of a run, and its actions that belong to the camera lifecycle
  (everything but a detection tick and the settling of an analysis).\<close>

fun calls_of :: "action list \<Rightarrow> call list" where
  "calls_of [] = []"
| "calls_of (InboundCall c # as) = c # calls_of as"
| "calls_of (a # as) = calls_of as"

fun is_lifecycle :: "action \<Rightarrow> bool" where
  "is_lifecycle (AnimationFrame now date video) = False"
| "is_lifecycle (AnalysisSettled c outcome) = False"
| "is_lifecycle a = True"






text \<open>What identifies an event: its id, capture time and picture.\<close>

definition event_key :: "DetectionEvent \<Rightarrow> string \<times> int \<times> string" where
  "event_key e = (event_id e, timestamp e, imageDataUrl e)"


text \<open>The mean over all pixels of \<open>R + G + B\<close> of one buffer.\<close>

definition mean_rgb :: "frame \<Rightarrow> real" where
  "mean_rgb a =
     real_of_int (sum_list (map (\<lambda>p. uint (a ! (4 * p)) + uint (a ! (4 * p + 1)) + uint (a ! (4 * p + 2)))
                     [0..<length a div 4]))
       / real (length a div 4)"

text \<open>
  The bookkeeping of the inbound calls \<open>cs\<close> received so far: every call is either in the
  queue or answered, as often as it was received, and nothing is queued while a media
  stream is present.
\<close>

definition calls_kept :: "call list \<Rightarrow> CameraView \<Rightarrow> bool" where
  "calls_kept cs s =
     ((\<forall>c. count_list (map fst (answered s)) c + count_list (pendingCalls s) c = count_list cs c)
      \<and> (mediaStreamRef s = None \<or> pendingCalls s = []))"




text \<open>The actions that can happen between the request of the camera and its answer
  without ending the session: animation frames, viewer calls and settling analyses.\<close>

fun is_background :: "action \<Rightarrow> bool" where
  "is_background (AnimationFrame now date video) = True"
| "is_background (InboundCall c) = True"
| "is_background (AnalysisSettled c outcome) = True"
| "is_background a = False"

text \<open>Monitoring is on and the camera is still awaited: the video element has no source,
  and if the permission of an earlier session is still recorded, the cooldown is already
  reset and a frame is requested.\<close>

definition awaiting_camera :: "CameraView \<Rightarrow> bool" where
  "awaiting_camera s =
     (isMonitoring s \<and> videoSrc s = None
      \<and> (hasCameraPermission s \<noteq> Some True \<or> (lastDetectionTime s = 0 \<and> frameRequested s)))"

section \<open>Frame differencer: the loop computes the specified score\<close>

lemma frame_diff_loop_sum:
  assumes "length cur = 4 * n" and "length old = 4 * n" and "k \<le> n"
  shows "frame_diff_loop cur old (4 * k) (Some d)
         = Some (d + sum_list (map (pixel_delta cur old) [k..<n]))"
  using assms(3)
proof (induction "n - k" arbitrary: k d)
  case 0
  then have "k = n" by simp
  then show ?case
    using assms(1) by (simp add: frame_diff_loop.simps)
next
  case (Suc m)
  then have kn: "k < n" and m: "m = n - Suc k" and le: "Suc k \<le> n" by simp_all
  have unfold: "frame_diff_loop cur old (4 * k) (Some d)
        = frame_diff_loop cur old (4 * Suc k) (Some (d + pixel_delta cur old k))"
    using kn assms(1,2)
    by (subst frame_diff_loop.simps)
       (simp add: px_def abs_sub_def plus_num_def pixel_delta_def add.commute)
  have "[k..<n] = k # [Suc k..<n]"
    using kn by (simp add: upt_conv_Cons)
  then show ?case
    using Suc.hyps(1) [OF m le, of "d + pixel_delta cur old k"] unfold by simp
qed

lemma motion_score_eq:
  assumes "length old = length cur" and "length cur mod 4 = 0" and "cur \<noteq> []"
  shows "motion_score cur old = Some (spec_score cur old)"
proof -
  from assms(2) have "4 dvd length cur" by auto
  then obtain n where n: "length cur = 4 * n" by (auto elim: dvdE)
  with assms(3) have pos: "0 < n" by (cases n) auto
  have "frame_diff_loop cur old (4 * 0) (Some 0)
        = Some (0 + sum_list (map (pixel_delta cur old) [0..<n]))"
    by (rule frame_diff_loop_sum) (use n assms(1) in simp_all)
  then show ?thesis
    using n pos by (simp add: motion_score_def spec_score_def)
qed

lemma sum_list_const:
  "(\<And>x. x \<in> set xs \<Longrightarrow> f x = (c::int)) \<Longrightarrow> sum_list (map f xs) = int (length xs) * c"
  by (induction xs) (simp_all add: algebra_simps)

lemma pixel_delta_same: "pixel_delta a a p = 0"
  by (simp add: pixel_delta_def)

lemma spec_score_same: "spec_score a a = 0"
  using sum_list_const [of "[0..<length a div 4]" "pixel_delta a a" 0]
  by (simp add: spec_score_def pixel_delta_same)

lemma pixel_delta_uniform:
  assumes "differs_uniformly a b \<Delta>" and "4 * p + 2 < length a"
  shows "pixel_delta a b p = 3 * \<Delta>"
proof -
  have all: "\<And>i. i < length a \<Longrightarrow> i mod 4 \<noteq> 3 \<Longrightarrow> \<bar>uint (a ! i) - uint (b ! i)\<bar> = \<Delta>"
    using assms(1) by (auto simp: differs_uniformly_def list_all_iff)
  have "(4 * p) mod 4 \<noteq> 3" "(4 * p + 1) mod 4 \<noteq> 3" "(4 * p + 2) mod 4 \<noteq> 3"
    by presburger+
  with all [of "4 * p"] all [of "4 * p + 1"] all [of "4 * p + 2"] assms(2)
  show ?thesis by (simp add: pixel_delta_def)
qed

lemma spec_score_uniform:
  assumes "differs_uniformly a b \<Delta>" and "length a mod 4 = 0" and "a \<noteq> []"
  shows "spec_score a b = 3 * real_of_int \<Delta>"
proof -
  from assms(2) have "4 dvd length a" by auto
  then obtain n where n: "length a = 4 * n" by (auto elim: dvdE)
  with assms(3) have pos: "0 < n" by (cases n) auto
  have "sum_list (map (pixel_delta a b) [0..<n]) = int (length [0..<n]) * (3 * \<Delta>)"
    by (rule sum_list_const) (use n in \<open>auto intro!: pixel_delta_uniform [OF assms(1)]\<close>)
  then show ?thesis
    using n pos by (simp add: spec_score_def)
qed

text \<open>
  Claim C2. For two RGBA buffers of the same size (a positive multiple of four bytes, as
  every \<open>ImageData\<close> has), the score computed by the loop of \<open>drawAndCompare\<close> is the sum
  over all pixels of \<open>|R1 - R2| + |G1 - G2| + |B1 - B2|\<close> divided by the number of pixels;
  the alpha bytes are never read. The score of two identical buffers is 0, and the score
  of two buffers whose colour channels all differ by exactly \<open>\<Delta>\<close> is \<open>3 * \<Delta>\<close>. (The
  quotient is the exact one; JavaScript rounds it to the nearest double, which changes
  neither of the two special cases.)
\<close>

theorem frame_differencer_score:
  assumes "length old = length cur" and "length cur mod 4 = 0" and "cur \<noteq> []"
  shows "motion_score cur old = Some (spec_score cur old)
       \<and> (old = cur \<longrightarrow> motion_score cur old = Some 0)
       \<and> (differs_uniformly cur old \<Delta> \<longrightarrow> motion_score cur old = Some (3 * real_of_int \<Delta>))"
  using motion_score_eq [OF assms] spec_score_same [of cur]
    spec_score_uniform [OF _ assms(2,3), of old \<Delta>]
  by auto

theorem frame_differencer_score_witness:
  "motion_score [10, 20, 30, 255, 40, 50, 60, 255] [7, 17, 27, 255, 43, 53, 63, 0] = Some 9
   \<and> motion_score [10, 20, 30, 255, 40, 50, 60, 255] [10, 20, 30, 255, 40, 50, 60, 255] = Some 0"
proof -
  let ?cur = "[10, 20, 30, 255, 40, 50, 60, 255] :: frame"
  let ?old = "[7, 17, 27, 255, 43, 53, 63, 0] :: frame"
  have u: "differs_uniformly ?cur ?old 3"
    by (simp add: differs_uniformly_def)
  have a: "length ?old = length ?cur" "length ?cur mod 4 = 0" "?cur \<noteq> []" by simp_all
  have b: "length ?cur = length ?cur" by simp
  from frame_differencer_score [OF a, of 3] u
  have 1: "motion_score ?cur ?old = Some (3 * real_of_int 3)" by blast
  from frame_differencer_score [OF b a(2,3), of 0]
  have 2: "motion_score ?cur ?cur = Some 0" by blast
  show ?thesis using 1 2 by simp
qed

section \<open>Cooldown gate\<close>

text \<open>
  Claim C1. \<open>handleMotionDetected\<close> called at time \<open>now\<close> creates a detection event if and
  only if \<open>now - lastDetectionTime\<close> is at least 10 seconds (10000 ms). When it permits,
  \<open>lastDetectionTime\<close> becomes \<open>now\<close> and the new event is prepended; when it denies, the
  whole state is unchanged, so no event is created. Exactly 10 seconds after the last
  trigger it permits.
\<close>

theorem cooldown_gate:
  "(events (handleMotionDetected now date img s) \<noteq> events s) = (10000 \<le> now - lastDetectionTime s)
   \<and> (10000 \<le> now - lastDetectionTime s \<longrightarrow>
        lastDetectionTime (handleMotionDetected now date img s) = now
        \<and> events (handleMotionDetected now date img s) = newEvent now date img # events s)
   \<and> (now - lastDetectionTime s < 10000 \<longrightarrow> handleMotionDetected now date img s = s)
   \<and> lastDetectionTime (handleMotionDetected (lastDetectionTime s + 10000) date img s)
        = lastDetectionTime s + 10000
   \<and> events (handleMotionDetected (lastDetectionTime s + 10000) date img s)
        = newEvent (lastDetectionTime s + 10000) date img # events s"
  by (simp add: handleMotionDetected_def submit_def COOLDOWN_SECONDS_def)

theorem cooldown_gate_witness:
  "lastDetectionTime (handleMotionDetected 15000 15001 ''jpeg'' ((initial True)\<lparr>lastDetectionTime := 5000\<rparr>)) = 15000
   \<and> events (handleMotionDetected 15000 15001 ''jpeg'' ((initial True)\<lparr>lastDetectionTime := 5000\<rparr>))
       = [newEvent 15000 15001 ''jpeg'']
   \<and> handleMotionDetected 14999 15001 ''jpeg'' ((initial True)\<lparr>lastDetectionTime := 5000\<rparr>)
       = (initial True)\<lparr>lastDetectionTime := 5000\<rparr>"
  using cooldown_gate [of 15000 15001 "''jpeg''" "(initial True)\<lparr>lastDetectionTime := 5000\<rparr>"]
    cooldown_gate [of 14999 15001 "''jpeg''" "(initial True)\<lparr>lastDetectionTime := 5000\<rparr>"]
  by (simp add: initial_def)

section \<open>The analysis service never rejects\<close>

lemma analyzeImage_cases:
  "analyzeImage img outcome =
     Inr (case outcome of
            Rejected (JsError n message) \<Rightarrow> ''Erro na an'' @ [CHR 0xE1] @ ''lise da IA: '' @ message
          | Rejected NonError \<Rightarrow> ''Erro desconhecido na an'' @ [CHR 0xE1] @ ''lise da IA.''
          | Fulfilled (Response (Some text)) \<Rightarrow>
              if text \<noteq> [] then text
              else ''Erro na an'' @ [CHR 0xE1] @ ''lise da IA: '' @ empty_response_message
          | Fulfilled r \<Rightarrow> ''Erro na an'' @ [CHR 0xE1] @ ''lise da IA: '' @ empty_response_message)"
  by (simp add: analyzeImage_def analyzeImage_try_def
      split: api_outcome.split response.split option.split thrown.split)

lemma analyzeImage_Inr: "\<exists>d. analyzeImage img outcome = Inr d"
  by (simp add: analyzeImage_cases)

lemma analyzeImage_failed:
  assumes "failed outcome"
  shows "\<exists>d. analyzeImage img outcome = Inr d \<and> take 4 d = ''Erro'' \<and>
           (d = ''Erro desconhecido na an'' @ [CHR 0xE1] @ ''lise da IA.''
            \<or> (\<exists>message. d = ''Erro na an'' @ [CHR 0xE1] @ ''lise da IA: '' @ message))"
  using assms
  by (auto simp: analyzeImage_cases failed_def
      split: api_outcome.split response.split option.split thrown.split)


lemma Erro_not_empty: "take 4 d = ''Erro'' \<Longrightarrow> d \<noteq> []"
  by (rule notI) simp

lemma resume_try_Inr:
  "analyzeImage (call_image c) outcome = Inr d \<Longrightarrow>
   resume_try c outcome s = Inr (s\<lparr>events := setAnalysis (call_event_id c) d (events s)\<rparr>)"
  by (simp add: resume_try_def)

lemma handleMotionDetected_resume_eq:
  assumes "analyzeImage (call_image c) outcome = Inr d"
  shows "handleMotionDetected_resume c outcome s =
           Inr (s\<lparr>events := setAnalysis (call_event_id c) d (events s),
                  status := (if call_isMonitoring c then ''Monitorando...'' else status s),
                  analysisCalls := remove1 c (analysisCalls s)\<rparr>)"
  by (simp add: handleMotionDetected_resume_def resume_try_Inr [OF assms] Let_def)

lemma setAnalysis_mem:
  "e \<in> set (setAnalysis i d p) \<Longrightarrow>
   \<exists>e0 \<in> set p. e = (if event_id e0 = i then e0\<lparr>analysis := Some d, isAnalyzing := False\<rparr> else e0)"
  unfolding setAnalysis_def set_map by (erule imageE) (rule bexI)

lemma setAnalysis_written:
  assumes "e \<in> set (setAnalysis i d p)" and "event_id e = i"
  shows "analysis e = Some d \<and> \<not> isAnalyzing e"
proof -
  from setAnalysis_mem [OF assms(1)] obtain e0 where
      e0: "e = (if event_id e0 = i then e0\<lparr>analysis := Some d, isAnalyzing := False\<rparr> else e0)"
    by blast
  show ?thesis
  proof (cases "event_id e0 = i")
    case True
    with e0 have "e = e0\<lparr>analysis := Some d, isAnalyzing := False\<rparr>" by simp
    then show ?thesis by simp
  next
    case False
    with e0 have "e = e0" by simp
    with False assms(2) show ?thesis by simp
  qed
qed



section \<open>A failed analysis is recorded in its event and nothing else changes\<close>

text \<open>
  Claim C7. When the analysis call of an event fails, the continuation of
  \<open>handleMotionDetected\<close> completes without an exception; every event with the id of the
  call gets a non-empty, readable failure text as its \<open>analysis\<close> and \<open>isAnalyzing = False\<close>;
  the call leaves the set of pending calls and no new call is issued (no retry); and the
  state of the detection loop (monitoring flag, cooldown time, requested frame, previous
  frame, video source) is untouched, so a later detection creates its event as before.
\<close>

theorem analysis_failure_handled:
  assumes "failed outcome"
  shows "\<exists>d s'. handleMotionDetected_resume c outcome s = Inr s'
        \<and> d \<noteq> []
        \<and> (d = ''Erro desconhecido na an'' @ [CHR 0xE1] @ ''lise da IA.''
            \<or> (\<exists>message. d = ''Erro na an'' @ [CHR 0xE1] @ ''lise da IA: '' @ message))
        \<and> events s' = setAnalysis (call_event_id c) d (events s)
        \<and> (\<forall>e \<in> set (events s'). event_id e = call_event_id c \<longrightarrow>
              analysis e = Some d \<and> \<not> isAnalyzing e)
        \<and> analysisCalls s' = remove1 c (analysisCalls s)
        \<and> isMonitoring s' = isMonitoring s
        \<and> lastDetectionTime s' = lastDetectionTime s
        \<and> frameRequested s' = frameRequested s
        \<and> oldCanvas s' = oldCanvas s
        \<and> videoSrc s' = videoSrc s
        \<and> (\<forall>now date img. 10000 \<le> now - lastDetectionTime s \<longrightarrow>
              events (handleMotionDetected now date img s') = newEvent now date img # events s')"
proof -
  from assms obtain d where d: "analyzeImage (call_image c) outcome = Inr d"
      "take 4 d = ''Erro''"
      "d = ''Erro desconhecido na an'' @ [CHR 0xE1] @ ''lise da IA.''
       \<or> (\<exists>message. d = ''Erro na an'' @ [CHR 0xE1] @ ''lise da IA: '' @ message)"
    using analyzeImage_failed by blast
  define s' where "s' = s\<lparr>events := setAnalysis (call_event_id c) d (events s),
                  status := (if call_isMonitoring c then ''Monitorando...'' else status s),
                  analysisCalls := remove1 c (analysisCalls s)\<rparr>"
  have r: "handleMotionDetected_resume c outcome s = Inr s'"
    unfolding s'_def by (rule handleMotionDetected_resume_eq [OF d(1)])
  have ne: "d \<noteq> []" using d(2) by (rule Erro_not_empty)
  have ev: "events s' = setAnalysis (call_event_id c) d (events s)"
    by (simp add: s'_def)
  have wr: "\<forall>e \<in> set (events s'). event_id e = call_event_id c \<longrightarrow>
              analysis e = Some d \<and> \<not> isAnalyzing e"
    unfolding ev using setAnalysis_written by blast
  have fr: "analysisCalls s' = remove1 c (analysisCalls s)" "isMonitoring s' = isMonitoring s"
      "lastDetectionTime s' = lastDetectionTime s" "frameRequested s' = frameRequested s"
      "oldCanvas s' = oldCanvas s" "videoSrc s' = videoSrc s"
    by (simp_all add: s'_def)
  have nx: "\<forall>now date img. 10000 \<le> now - lastDetectionTime s \<longrightarrow>
              events (handleMotionDetected now date img s') = newEvent now date img # events s'"
    by (simp add: handleMotionDetected_def submit_def COOLDOWN_SECONDS_def fr(3))
  show ?thesis
  proof (intro exI conjI)
    show "handleMotionDetected_resume c outcome s = Inr s'" by (rule r)
    show "d \<noteq> []" by (rule ne)
    show "d = ''Erro desconhecido na an'' @ [CHR 0xE1] @ ''lise da IA.''
            \<or> (\<exists>message. d = ''Erro na an'' @ [CHR 0xE1] @ ''lise da IA: '' @ message)"
      by (rule d(3))
    show "events s' = setAnalysis (call_event_id c) d (events s)" by (rule ev)
    show "\<forall>e \<in> set (events s'). event_id e = call_event_id c \<longrightarrow>
              analysis e = Some d \<and> \<not> isAnalyzing e" by (rule wr)
    show "analysisCalls s' = remove1 c (analysisCalls s)" by (rule fr(1))
    show "isMonitoring s' = isMonitoring s" by (rule fr(2))
    show "lastDetectionTime s' = lastDetectionTime s" by (rule fr(3))
    show "frameRequested s' = frameRequested s" by (rule fr(4))
    show "oldCanvas s' = oldCanvas s" by (rule fr(5))
    show "videoSrc s' = videoSrc s" by (rule fr(6))
    show "\<forall>now date img. 10000 \<le> now - lastDetectionTime s \<longrightarrow>
              events (handleMotionDetected now date img s') = newEvent now date img # events s'"
      by (rule nx)
  qed
qed

theorem analysis_failure_handled_witness:
  "failed (Fulfilled (Response (Some '''')))
   \<and> (\<exists>d s'. handleMotionDetected_resume
              \<lparr>call_event_id = ''15000'', call_image = ''jpeg'', call_isMonitoring = True\<rparr>
              (Fulfilled (Response (Some ''''))) (submit 15000 15001 ''jpeg'' ((initial True)\<lparr>isMonitoring := True\<rparr>)) = Inr s'
         \<and> d \<noteq> []
         \<and> events s' = [\<lparr>event_id = ''15000'', timestamp = 15001, imageDataUrl = ''jpeg'',
                          analysis = Some d, isAnalyzing = False\<rparr>]
         \<and> analysisCalls s' = [])"
proof -
  have f: "failed (Fulfilled (Response (Some '''')))"
    by (simp add: failed_def)
  have i: "toString 15000 = ''15000''"
    by (simp add: toString_def digits.simps digit_char_def)
  from analysis_failure_handled [OF f,
      of "\<lparr>call_event_id = ''15000'', call_image = ''jpeg'', call_isMonitoring = True\<rparr>"
         "submit 15000 15001 ''jpeg'' ((initial True)\<lparr>isMonitoring := True\<rparr>)"]
  obtain d s' where
    "handleMotionDetected_resume
        \<lparr>call_event_id = ''15000'', call_image = ''jpeg'', call_isMonitoring = True\<rparr>
        (Fulfilled (Response (Some ''''))) (submit 15000 15001 ''jpeg'' ((initial True)\<lparr>isMonitoring := True\<rparr>)) = Inr s'"
    "d \<noteq> []"
    "events s' = setAnalysis ''15000'' d (events (submit 15000 15001 ''jpeg'' ((initial True)\<lparr>isMonitoring := True\<rparr>)))"
    "analysisCalls s' = remove1 \<lparr>call_event_id = ''15000'', call_image = ''jpeg'', call_isMonitoring = True\<rparr>
        (analysisCalls (submit 15000 15001 ''jpeg'' ((initial True)\<lparr>isMonitoring := True\<rparr>)))"
    by auto
  then show ?thesis
    using f by (auto simp: submit_def initial_def newEvent_def setAnalysis_def i)
qed

section \<open>What the lifecycle handlers change\<close>

lemmas lifecycle_defs =
  toggleMonitoring_def cameraAcquired_def cameraFailed_def rerender_permission_def
  monitoring_effect_def camera_effect_def setupCamera_def setupCamera_catch_def
  setupCamera_acquired_def cleanupCamera_def onCall_def Let_def

lemma events_toggleMonitoring: "events (toggleMonitoring s) = events s"
  by (simp add: lifecycle_defs)

lemma events_cameraAcquired: "events (cameraAcquired stream s) = events s"
  by (simp add: lifecycle_defs)

lemma events_cameraFailed: "events (cameraFailed err s) = events s"
  by (simp add: lifecycle_defs)

lemma events_onCall: "events (onCall c s) = events s"
  by (simp add: onCall_def split: option.split)

lemma events_lifecycle_step:
  assumes "is_lifecycle a" and "step a s = Some s'"
  shows "events s' = events s"
proof (cases a)
  case Toggle
  with assms(2) show ?thesis by (auto simp: events_toggleMonitoring)
next
  case (CameraAcquired stream)
  with assms(2) show ?thesis by (auto simp: events_cameraAcquired split: if_splits)
next
  case (CameraFailed err)
  with assms(2) show ?thesis by (auto simp: events_cameraFailed split: if_splits)
next
  case (InboundCall c)
  with assms(2) show ?thesis by (auto simp: events_onCall)
next
  case (AnimationFrame now date video)
  with assms(1) show ?thesis by simp
next
  case (AnalysisSettled c outcome)
  with assms(1) show ?thesis by simp
qed

lemma events_lifecycle_run:
  "list_all is_lifecycle acts \<Longrightarrow> run acts s = Some s' \<Longrightarrow> events s' = events s"
proof (induction acts arbitrary: s)
  case Nil
  then show ?case by simp
next
  case (Cons a acts)
  from Cons.prems(2) obtain s1 where s1: "step a s = Some s1" "run acts s1 = Some s'"
    by (auto split: option.splits)
  from Cons.prems(1) have "is_lifecycle a" "list_all is_lifecycle acts" by simp_all
  with s1 Cons.IH [of s1] events_lifecycle_step [of a s s1] show ?case by simp
qed

lemma event_key_setAnalysis: "map event_key (setAnalysis i d p) = map event_key p"
  by (induction p) (simp_all add: setAnalysis_def event_key_def)

lemma event_keys_handleMotionDetected:
  "\<exists>new. map event_key (events (handleMotionDetected now date img s)) = new @ map event_key (events s)"
  by (simp add: handleMotionDetected_def submit_def)

lemma event_keys_drawAndCompare:
  "\<exists>new. map event_key (events (drawAndCompare now date video s)) = new @ map event_key (events s)"
proof (cases video)
  case None
  then show ?thesis by (simp add: drawAndCompare_def)
next
  case (Some fr)
  obtain cur jpeg where fr: "fr = (cur, jpeg)" by (cases fr)
  show ?thesis
  proof (cases "motion_detected cur (oldCanvas s)")
    case True
    with Some fr
    event_keys_handleMotionDetected [of now date jpeg "s\<lparr>status := ''Movimento Detectado!''\<rparr>"]
    show ?thesis by (simp add: drawAndCompare_def)
  next
    case False
    with Some fr show ?thesis by (simp add: drawAndCompare_def)
  qed
qed

lemma event_keys_resume:
  "handleMotionDetected_resume c outcome s = Inr s' \<Longrightarrow>
   map event_key (events s') = map event_key (events s)"
proof -
  assume r: "handleMotionDetected_resume c outcome s = Inr s'"
  obtain d where d: "analyzeImage (call_image c) outcome = Inr d"
    using analyzeImage_Inr by blast
  from r handleMotionDetected_resume_eq [OF d, of s]
  have "events s' = setAnalysis (call_event_id c) d (events s)" by auto
  then show ?thesis by (simp add: event_key_setAnalysis)
qed

lemma event_keys_step:
  assumes "step a s = Some s'"
  shows "\<exists>new. map event_key (events s') = new @ map event_key (events s)"
proof (cases a)
  case (AnimationFrame now date video)
  with assms have s': "s' = detectionLoop now date video (s\<lparr>frameRequested := False\<rparr>)"
    by (auto split: if_splits)
  from event_keys_drawAndCompare [of now date video "s\<lparr>frameRequested := False\<rparr>"]
  show ?thesis unfolding s' by (simp add: detectionLoop_def)
next
  case (AnalysisSettled c outcome)
  with assms have "handleMotionDetected_resume c outcome s = Inr s'"
    by (auto split: if_splits sum.splits)
  from event_keys_resume [OF this] show ?thesis by simp
next
  case Toggle
  with assms events_lifecycle_step [of a s s'] show ?thesis by simp
next
  case (CameraAcquired stream)
  with assms events_lifecycle_step [of a s s'] show ?thesis by simp
next
  case (CameraFailed err)
  with assms events_lifecycle_step [of a s s'] show ?thesis by simp
next
  case (InboundCall c)
  with assms events_lifecycle_step [of a s s'] show ?thesis by simp
qed

lemma event_keys_run:
  "run acts s = Some s' \<Longrightarrow> \<exists>new. map event_key (events s') = new @ map event_key (events s)"
proof (induction acts arbitrary: s)
  case Nil
  then show ?case by simp
next
  case (Cons a acts)
  from Cons.prems obtain s1 where s1: "step a s = Some s1" "run acts s1 = Some s'"
    by (auto split: option.splits)
  from event_keys_step [OF s1(1)] obtain n1 where
    n1: "map event_key (events s1) = n1 @ map event_key (events s)" by blast
  from Cons.IH [OF s1(2)] obtain n2 where
    n2: "map event_key (events s') = n2 @ map event_key (events s1)" by blast
  from n1 n2 have "map event_key (events s') = (n2 @ n1) @ map event_key (events s)" by simp
  then show ?case by blast
qed

lemma stop_releases:
  assumes "isMonitoring s"
  shows "\<not> isMonitoring (toggleMonitoring s)" and "mediaStreamRef (toggleMonitoring s) = None"
    and "videoSrc (toggleMonitoring s) = None" and "\<not> frameRequested (toggleMonitoring s)"
    and "status (toggleMonitoring s) = ''Parado''"
  using assms by (simp_all add: lifecycle_defs)

text \<open>
  Claim C10. Stopping and restarting monitoring never touches the list of detection
  events: the toggle handler, the camera continuations and the inbound-call handler leave
  \<open>events\<close> as it is, so any sequence of lifecycle actions does; the stop transition sets
  \<open>isMonitoring\<close> to false, releases the media stream and cancels the requested frame. Over
  any run of the component, with detections and analyses in between, the events already in
  the list stay in it, in the same order, behind the newer ones.
\<close>

theorem events_survive_stop_and_restart:
  "events (toggleMonitoring s) = events s
   \<and> events (toggleMonitoring (toggleMonitoring s)) = events s
   \<and> (isMonitoring s \<longrightarrow>
        \<not> isMonitoring (toggleMonitoring s) \<and> mediaStreamRef (toggleMonitoring s) = None
        \<and> \<not> frameRequested (toggleMonitoring s))
   \<and> (list_all is_lifecycle acts \<and> run acts s = Some s' \<longrightarrow> events s' = events s)
   \<and> (run acts s = Some s' \<longrightarrow>
        (\<exists>new. map event_key (events s') = new @ map event_key (events s)))"
  using events_toggleMonitoring stop_releases events_lifecycle_run event_keys_run
  by (intro conjI impI) auto

theorem events_survive_stop_and_restart_witness:
  "isMonitoring (submit 15000 15001 ''jpeg'' (cameraAcquired 1 (toggleMonitoring (initial True))))
   \<and> list_all is_lifecycle [Toggle, InboundCall 7, Toggle, CameraAcquired 2]
   \<and> \<not> isMonitoring (toggleMonitoring (submit 15000 15001 ''jpeg'' (cameraAcquired 1 (toggleMonitoring (initial True)))))
   \<and> events (toggleMonitoring (submit 15000 15001 ''jpeg'' (cameraAcquired 1 (toggleMonitoring (initial True)))))
       = [newEvent 15000 15001 ''jpeg'']
   \<and> (\<exists>s'. run [Toggle, InboundCall 7, Toggle, CameraAcquired 2]
              (submit 15000 15001 ''jpeg'' (cameraAcquired 1 (toggleMonitoring (initial True)))) = Some s'
          \<and> events s' = [newEvent 15000 15001 ''jpeg''])"
proof -
  let ?s = "submit 15000 15001 ''jpeg'' (cameraAcquired 1 (toggleMonitoring (initial True)))"
  let ?acts = "[Toggle, InboundCall 7, Toggle, CameraAcquired 2]"
  have m: "isMonitoring ?s"
    by (simp add: submit_def lifecycle_defs initial_def)
  have e: "events ?s = [newEvent 15000 15001 ''jpeg'']"
    by (simp add: submit_def lifecycle_defs initial_def)
  have l: "list_all is_lifecycle ?acts"
    by simp
  have "\<exists>s'. run ?acts ?s = Some s'"
    by (simp add: submit_def lifecycle_defs initial_def)
  then obtain s' where r: "run ?acts ?s = Some s'" by blast
  from events_survive_stop_and_restart [of ?s ?acts s'] m e l r
  show ?thesis by simp
qed

section \<open>Failure to acquire the camera\<close>






section \<open>The cooldown is reset when monitoring starts\<close>

lemma cameraAcquired_effect:
  assumes "isMonitoring s"
  shows "isMonitoring (cameraAcquired stream s)"
    and "hasCameraPermission (cameraAcquired stream s) = Some True"
    and "mediaStreamRef (cameraAcquired stream s) = Some stream"
    and "videoSrc (cameraAcquired stream s) = Some stream"
    and "frameRequested (cameraAcquired stream s)
           = (hasCameraPermission s = Some True \<longrightarrow> frameRequested s)"
    and "lastDetectionTime (cameraAcquired stream s)
           = (if hasCameraPermission s = Some True then lastDetectionTime s else 0)"
  using assms by (simp_all add: lifecycle_defs)

lemma run_append:
  "run (xs @ ys) s = (case run xs s of None \<Rightarrow> None | Some s1 \<Rightarrow> run ys s1)"
  by (induction xs arbitrary: s) (simp_all split: option.split)

lemma awaiting_camera_toggle:
  "\<not> isMonitoring s \<Longrightarrow> awaiting_camera (toggleMonitoring s)"
  by (simp add: awaiting_camera_def lifecycle_defs)

lemma awaiting_camera_step:
  assumes "awaiting_camera s" and "is_background a" and "step a s = Some s1"
  shows "awaiting_camera s1"
proof (cases a)
  case (AnimationFrame now date video)
  from assms(1) have "videoSrc s = None" by (simp add: awaiting_camera_def)
  with assms(3) AnimationFrame have "video = None"
    and "s1 = detectionLoop now date None (s\<lparr>frameRequested := False\<rparr>)"
    by (auto split: if_splits)
  with assms(1) show ?thesis
    by (simp add: awaiting_camera_def detectionLoop_def drawAndCompare_def)
next
  case (InboundCall c)
  with assms(3) have "s1 = onCall c s" by simp
  with assms(1) show ?thesis
    by (simp add: awaiting_camera_def onCall_def split: option.split)
next
  case (AnalysisSettled c outcome)
  with assms(3) have r: "handleMotionDetected_resume c outcome s = Inr s1"
    by (simp split: if_splits sum.splits)
  obtain d where d: "analyzeImage (call_image c) outcome = Inr d"
    using analyzeImage_Inr by blast
  from r handleMotionDetected_resume_eq [OF d, of s]
  have "s1 = s\<lparr>events := setAnalysis (call_event_id c) d (events s),
                  status := (if call_isMonitoring c then ''Monitorando...'' else status s),
                  analysisCalls := remove1 c (analysisCalls s)\<rparr>"
    by simp
  with assms(1) show ?thesis
    by (simp add: awaiting_camera_def)
next
  case Toggle
  with assms(2) show ?thesis by simp
next
  case (CameraAcquired stream)
  with assms(2) show ?thesis by simp
next
  case (CameraFailed err)
  with assms(2) show ?thesis by simp
qed

lemma awaiting_camera_run:
  "awaiting_camera s \<Longrightarrow> list_all is_background mid \<Longrightarrow> run mid s = Some s1 \<Longrightarrow>
   awaiting_camera s1"
proof (induction mid arbitrary: s)
  case Nil
  then show ?case by simp
next
  case (Cons a mid)
  from Cons.prems(3) obtain s2 where s2: "step a s = Some s2" "run mid s2 = Some s1"
    by (auto split: option.splits)
  from Cons.prems(2) have b: "is_background a" "list_all is_background mid" by simp_all
  have "awaiting_camera s2"
    by (rule awaiting_camera_step [OF Cons.prems(1) b(1) s2(1)])
  from Cons.IH [OF this b(2) s2(2)] show ?case .
qed

lemma awaiting_camera_acquired:
  assumes "awaiting_camera s"
  shows "lastDetectionTime (cameraAcquired stream s) = 0"
    and "isMonitoring (cameraAcquired stream s)"
    and "frameRequested (cameraAcquired stream s)"
proof -
  from assms have m: "isMonitoring s"
    and p: "hasCameraPermission s = Some True \<Longrightarrow> lastDetectionTime s = 0 \<and> frameRequested s"
    by (auto simp: awaiting_camera_def)
  note e = cameraAcquired_effect [OF m, of stream]
  show "isMonitoring (cameraAcquired stream s)" by (rule e(1))
  show "lastDetectionTime (cameraAcquired stream s) = 0"
    using e(6) p by (cases "hasCameraPermission s = Some True") simp_all
  show "frameRequested (cameraAcquired stream s)"
    using e(5) p by (cases "hasCameraPermission s = Some True") simp_all
qed

text \<open>
  Claim C8. Whatever the earlier sessions left in \<open>lastDetectionTime\<close>: once monitoring
  has been switched on and the camera acquired (with any animation frames, viewer calls and
  settling analyses in between), \<open>lastDetectionTime\<close> is 0 and a frame is requested. The
  first detection of the new session is therefore judged against 0 and not against a
  trigger of an earlier session: it creates its event exactly when \<open>now\<close> is at least
  10000, which every value of \<open>Date.now()\<close> is.
\<close>

theorem cooldown_reset_on_start:
  assumes "\<not> isMonitoring s" and "list_all is_background mid"
    and "run (Toggle # mid @ [CameraAcquired stream]) s = Some s'"
  shows "lastDetectionTime s' = 0
       \<and> isMonitoring s' \<and> frameRequested s'
       \<and> (events (handleMotionDetected now date img s') \<noteq> events s') = (10000 \<le> now)
       \<and> (10000 \<le> now \<longrightarrow>
            events (handleMotionDetected now date img s') = newEvent now date img # events s')"
proof -
  from assms(3) have "run (mid @ [CameraAcquired stream]) (toggleMonitoring s) = Some s'"
    by simp
  then obtain s1 where s1: "run mid (toggleMonitoring s) = Some s1"
      and s': "run [CameraAcquired stream] s1 = Some s'"
    by (auto simp: run_append split: option.splits)
  from s' have s'_eq: "s' = cameraAcquired stream s1"
    by (auto split: if_splits)
  have "awaiting_camera s1"
    by (rule awaiting_camera_run [OF awaiting_camera_toggle [OF assms(1)] assms(2) s1])
  note r = awaiting_camera_acquired [OF this, of stream, folded s'_eq]
  have g: "(events (handleMotionDetected now date img s') \<noteq> events s') = (10000 \<le> now)"
    using r(1) by (simp add: handleMotionDetected_def submit_def COOLDOWN_SECONDS_def)
  have n: "10000 \<le> now \<longrightarrow>
            events (handleMotionDetected now date img s') = newEvent now date img # events s'"
    using r(1) by (simp add: handleMotionDetected_def submit_def COOLDOWN_SECONDS_def)
  from r g n show ?thesis by blast
qed

theorem cooldown_reset_on_start_witness:
  "\<not> isMonitoring ((initial True)\<lparr>events := [newEvent 1700000000000 1700000000000 ''a''],
        hasCameraPermission := Some True, lastDetectionTime := 1700000000000\<rparr>)
   \<and> list_all is_background [AnimationFrame 1700000002000 1700000002000 None, InboundCall 4]
   \<and> (\<exists>s'. run (Toggle # [AnimationFrame 1700000002000 1700000002000 None, InboundCall 4]
                  @ [CameraAcquired 2])
          ((initial True)\<lparr>events := [newEvent 1700000000000 1700000000000 ''a''],
             hasCameraPermission := Some True, lastDetectionTime := 1700000000000\<rparr>) = Some s'
        \<and> lastDetectionTime s' = 0
        \<and> events (handleMotionDetected 1700000003000 1700000003000 ''b'' s')
            = [newEvent 1700000003000 1700000003000 ''b'', newEvent 1700000000000 1700000000000 ''a''])"
proof -
  let ?s = "(initial True)\<lparr>events := [newEvent 1700000000000 1700000000000 ''a''],
        hasCameraPermission := Some True, lastDetectionTime := 1700000000000\<rparr>"
  let ?mid = "[AnimationFrame 1700000002000 1700000002000 None, InboundCall 4]"
  have a: "\<not> isMonitoring ?s"
    by (simp add: initial_def)
  have b: "list_all is_background ?mid"
    by simp
  define s1 where "s1 = toggleMonitoring ?s"
  have req: "cameraRequests s1 = 1" "frameRequested s1"
      "events s1 = [newEvent 1700000000000 1700000000000 ''a'']"
    unfolding s1_def by (simp_all add: lifecycle_defs initial_def)
  define t where "t = onCall 4 (detectionLoop 1700000002000 1700000002000 None
                (s1\<lparr>frameRequested := False\<rparr>))"
  have mid: "run ?mid s1 = Some t"
    using req(2) by (simp add: t_def)
  have t: "cameraRequests t = 1" "events t = [newEvent 1700000000000 1700000000000 ''a'']"
    using req(1,3)
    by (simp_all add: t_def detectionLoop_def drawAndCompare_def onCall_def split: option.split)
  have r0: "step Toggle ?s = Some s1"
    by (simp only: step.simps s1_def)
  have r1: "run (Toggle # ?mid @ [CameraAcquired 2]) ?s = run (?mid @ [CameraAcquired 2]) s1"
    by (simp only: run.simps(2) r0 option.case)
  have r2: "run (?mid @ [CameraAcquired 2]) s1 = run [CameraAcquired 2] t"
    by (simp only: run_append mid option.case)
  define s' where "s' = cameraAcquired 2 t"
  have r3: "run [CameraAcquired 2] t = Some s'"
    using t(1) by (simp add: s'_def)
  have r: "run (Toggle # ?mid @ [CameraAcquired 2]) ?s = Some s'"
    by (simp only: r1 r2 r3)
  have e: "events s' = [newEvent 1700000000000 1700000000000 ''a'']"
    using t(2) by (simp add: s'_def events_cameraAcquired)
  note c = cooldown_reset_on_start [OF a b r, of 1700000003000 1700000003000 "''b''"]
  from c have z: "lastDetectionTime s' = 0" by (rule conjunct1)
  from c e have n: "events (handleMotionDetected 1700000003000 1700000003000 ''b'' s')
            = [newEvent 1700000003000 1700000003000 ''b'', newEvent 1700000000000 1700000000000 ''a'']"
    by simp
  show ?thesis
  proof (intro conjI exI)
    show "\<not> isMonitoring ?s" by (rule a)
    show "list_all is_background ?mid" by (rule b)
    show "run (Toggle # ?mid @ [CameraAcquired 2]) ?s = Some s'" by (rule r)
    show "lastDetectionTime s' = 0" by (rule z)
    show "events (handleMotionDetected 1700000003000 1700000003000 ''b'' s')
            = [newEvent 1700000003000 1700000003000 ''b'', newEvent 1700000000000 1700000000000 ''a'']"
      by (rule n)
  qed
qed

section \<open>The first detection tick\<close>

lemma pixel_delta_blank:
  assumes "4 * p + 2 < n"
  shows "pixel_delta a (replicate n 0) p
         = uint (a ! (4 * p)) + uint (a ! (4 * p + 1)) + uint (a ! (4 * p + 2))"
  using assms by (simp add: pixel_delta_def)

lemma spec_score_blank:
  assumes "length a mod 4 = 0"
  shows "spec_score a (replicate (length a) 0) = mean_rgb a"
proof -
  from assms have "4 dvd length a" by auto
  then obtain n where n: "length a = 4 * n" by (auto elim: dvdE)
  have "map (pixel_delta a (replicate (4 * n) 0)) [0..<n]
        = map (\<lambda>p. uint (a ! (4 * p)) + uint (a ! (4 * p + 1)) + uint (a ! (4 * p + 2))) [0..<n]"
    by (rule map_cong [OF refl]) (simp add: pixel_delta_blank)
  then have eq: "map (pixel_delta a (replicate (length a) 0)) [0..<length a div 4]
        = map (\<lambda>p. uint (a ! (4 * p)) + uint (a ! (4 * p + 1)) + uint (a ! (4 * p + 2)))
            [0..<length a div 4]"
    using n by simp
  show ?thesis
    unfolding spec_score_def mean_rgb_def eq ..
qed

lemma motion_detected_blank:
  assumes "length cur mod 4 = 0" and "cur \<noteq> []"
  shows "motion_detected cur (replicate (length cur) 0) = (mean_rgb cur > 50)"
proof -
  have "motion_score cur (replicate (length cur) 0) = Some (mean_rgb cur)"
    using motion_score_eq [of "replicate (length cur) 0" cur] assms spec_score_blank [OF assms(1)]
    by simp
  then show ?thesis
    by (simp add: motion_detected_def MOTION_SENSITIVITY_def)
qed

lemma mean_rgb_replicate:
  assumes "0 < n"
  shows "mean_rgb (replicate (4 * n) c) = 3 * real_of_int (uint c)"
proof -
  have "sum_list (map (\<lambda>p. uint (replicate (4 * n) c ! (4 * p)) + uint (replicate (4 * n) c ! (4 * p + 1))
                        + uint (replicate (4 * n) c ! (4 * p + 2))) [0..<n])
        = int (length [0..<n]) * (3 * uint c)"
    by (rule sum_list_const) simp
  then show ?thesis
    using assms by (simp add: mean_rgb_def)
qed

lemma started_state:
  "run [Toggle, CameraAcquired stream] (initial True)
     = Some ((initial True)\<lparr>isMonitoring := True, status := ''Monitorando...'',
          hasCameraPermission := Some True, mediaStreamRef := Some stream,
          videoSrc := Some stream, frameRequested := True\<rparr>)"
  by (simp add: lifecycle_defs initial_def)

lemma first_tick_run:
  assumes "length cur = 4 * 320 * 240"
  shows "\<exists>s'. run [Toggle, CameraAcquired stream, AnimationFrame now date (Some (cur, jpeg))]
                (initial True) = Some s'
           \<and> events s' = (if mean_rgb cur > 50 \<and> 10000 \<le> now then [newEvent now date jpeg] else [])
           \<and> oldCanvas s' = cur"
proof -
  let ?s = "(initial True)\<lparr>isMonitoring := True, status := ''Monitorando...'',
          hasCameraPermission := Some True, mediaStreamRef := Some stream,
          videoSrc := Some stream, frameRequested := True\<rparr>"
  let ?s' = "detectionLoop now date (Some (cur, jpeg)) (?s\<lparr>frameRequested := False\<rparr>)"
  from assms have len: "length cur mod 4 = 0" "cur \<noteq> []" by auto
  have old: "oldCanvas ?s = replicate (length cur) 0"
    using assms by (simp add: initial_def)
  have md: "motion_detected cur (oldCanvas ?s) = (mean_rgb cur > 50)"
    unfolding old by (rule motion_detected_blank [OF len])
  have "run [Toggle, CameraAcquired stream, AnimationFrame now date (Some (cur, jpeg))] (initial True)
        = (case run [Toggle, CameraAcquired stream] (initial True) of
             None \<Rightarrow> None | Some s \<Rightarrow> step (AnimationFrame now date (Some (cur, jpeg))) s)"
    by (simp split: option.split)
  also have "\<dots> = step (AnimationFrame now date (Some (cur, jpeg))) ?s"
    by (simp only: started_state option.case)
  also have "\<dots> = Some ?s'"
    by simp
  finally have r: "run [Toggle, CameraAcquired stream, AnimationFrame now date (Some (cur, jpeg))]
      (initial True) = Some ?s'" .
  have ev: "events ?s' = (if mean_rgb cur > 50 \<and> 10000 \<le> now then [newEvent now date jpeg] else [])"
    using md
    by (simp add: detectionLoop_def drawAndCompare_def handleMotionDetected_def submit_def
        COOLDOWN_SECONDS_def initial_def)
  have oc: "oldCanvas ?s' = cur"
    by (simp add: detectionLoop_def drawAndCompare_def handleMotionDetected_def submit_def)
  from r ev oc show ?thesis by blast
qed

text \<open>
  On the first detection tick after monitoring starts, the previous-frame canvas is still
  blank (all bytes 0), and \<open>drawAndCompare\<close> compares the captured frame with it like
  with any other frame: the tick submits an event exactly when the mean over the pixels of
  \<open>R + G + B\<close> of the first frame exceeds 50 (and \<open>now\<close> is at least 10000). In both
  cases the frame becomes the previous frame.
\<close>

lemma first_tick_compares_with_blank_canvas:
  assumes "length cur = 4 * 320 * 240"
  shows "\<exists>s'. run [Toggle, CameraAcquired stream, AnimationFrame now date (Some (cur, jpeg))]
                (initial True) = Some s'
           \<and> (events s' \<noteq> []) = (mean_rgb cur > 50 \<and> 10000 \<le> now)
           \<and> (mean_rgb cur \<le> 50 \<longrightarrow> events s' = [])
           \<and> oldCanvas s' = cur"
proof -
  from first_tick_run [OF assms, of stream now date jpeg] obtain s' where
    s': "run [Toggle, CameraAcquired stream, AnimationFrame now date (Some (cur, jpeg))]
           (initial True) = Some s'"
      "events s' = (if mean_rgb cur > 50 \<and> 10000 \<le> now then [newEvent now date jpeg] else [])"
      "oldCanvas s' = cur"
    by blast
  from s'(2) have a: "(events s' \<noteq> []) = (mean_rgb cur > 50 \<and> 10000 \<le> now)" by simp
  from s'(2) have b: "mean_rgb cur \<le> 50 \<longrightarrow> events s' = []" by simp
  from s'(1) a b s'(3) show ?thesis by blast
qed

lemma first_tick_dark_frame:
  "length (replicate (4 * 320 * 240) (16 :: 8 word)) = 4 * 320 * 240
   \<and> mean_rgb (replicate (4 * 320 * 240) 16) = 48
   \<and> (\<exists>s'. run [Toggle, CameraAcquired 1,
                 AnimationFrame 1700000000000 1700000000000
                   (Some (replicate (4 * 320 * 240) 16, ''data:image/jpeg;base64,''))]
                (initial True) = Some s'
          \<and> events s' = []
          \<and> oldCanvas s' = replicate (4 * 320 * 240) 16)"
proof -
  have l: "length (replicate (4 * 320 * 240) (16 :: 8 word)) = 4 * 320 * 240" by simp
  have "mean_rgb (replicate (4 * (320 * 240)) (16 :: 8 word)) = 3 * real_of_int (uint (16 :: 8 word))"
    by (rule mean_rgb_replicate) simp
  then have m: "mean_rgb (replicate (4 * 320 * 240) 16) = 48" by simp
  from first_tick_compares_with_blank_canvas
    [OF l, of 1 1700000000000 1700000000000 "''data:image/jpeg;base64,''"]
  obtain s' where s': "run [Toggle, CameraAcquired 1,
                 AnimationFrame 1700000000000 1700000000000
                   (Some (replicate (4 * 320 * 240) 16, ''data:image/jpeg;base64,''))]
                (initial True) = Some s'"
      "mean_rgb (replicate (4 * 320 * 240) 16) \<le> 50 \<longrightarrow> events s' = []"
      "oldCanvas s' = replicate (4 * 320 * 240) 16"
    by blast
  from s'(2) m have "events s' = []" by simp
  with l m s'(1,3) show ?thesis by blast
qed

text \<open>
  Claim C6 says that the first detection tick, taken while no previous frame has been
  stored, never triggers, whatever the first frame shows. The code has no such case: the
  blank previous-frame canvas is compared like a frame. Monitoring is started on the freshly
  mounted component, the camera is acquired, and the first tick captures an all-white
  \<open>320 \<times> 240\<close> frame: the tick creates a detection event and issues an analysis call.
\<close>

theorem first_tick_false_trigger:
  "map_option events
     (run [Toggle, CameraAcquired 1,
           AnimationFrame 1700000000000 1700000000000
             (Some (replicate (4 * 320 * 240) 255, ''data:image/jpeg;base64,''))]
        (initial True))
   = Some [newEvent 1700000000000 1700000000000 ''data:image/jpeg;base64,'']"
proof -
  have l: "length (replicate (4 * 320 * 240) (255 :: 8 word)) = 4 * 320 * 240" by simp
  have "mean_rgb (replicate (4 * (320 * 240)) (255 :: 8 word)) = 3 * real_of_int (uint (255 :: 8 word))"
    by (rule mean_rgb_replicate) simp
  then have m: "mean_rgb (replicate (4 * 320 * 240) 255) = 765" by simp
  from first_tick_run [OF l, of 1 1700000000000 1700000000000 "''data:image/jpeg;base64,''"]
  obtain s' where s': "run [Toggle, CameraAcquired 1,
           AnimationFrame 1700000000000 1700000000000
             (Some (replicate (4 * 320 * 240) 255, ''data:image/jpeg;base64,''))]
        (initial True) = Some s'"
      "events s' = (if mean_rgb (replicate (4 * 320 * 240) 255) > 50 \<and> 10000 \<le> (1700000000000 :: int)
                    then [newEvent 1700000000000 1700000000000 ''data:image/jpeg;base64,''] else [])"
    by blast
  from s'(2) m have "events s' = [newEvent 1700000000000 1700000000000 ''data:image/jpeg;base64,'']"
    by simp
  then show ?thesis
    unfolding s'(1) by simp
qed

section \<open>Inbound calls are queued until the stream exists and answered once\<close>

lemma session_toggleMonitoring:
  "answered (toggleMonitoring s) = answered s"
  "pendingCalls (toggleMonitoring s) = pendingCalls s"
  "mediaStreamRef (toggleMonitoring s) = None"
  by (simp_all add: lifecycle_defs)

lemma session_cameraFailed:
  "answered (cameraFailed err s) = answered s"
  "pendingCalls (cameraFailed err s) = pendingCalls s"
  "mediaStreamRef (cameraFailed err s) = None"
  by (simp_all add: lifecycle_defs)

lemma session_cameraAcquired:
  "answered (cameraAcquired stream s) = answered s @ map (\<lambda>c. (c, stream)) (pendingCalls s)"
  "pendingCalls (cameraAcquired stream s) = []"
  "mediaStreamRef (cameraAcquired stream s) = Some stream"
  by (simp_all add: lifecycle_defs)

lemma session_onCall_queued:
  assumes "mediaStreamRef s = None"
  shows "answered (onCall c s) = answered s"
    and "pendingCalls (onCall c s) = pendingCalls s @ [c]"
    and "mediaStreamRef (onCall c s) = None"
  using assms by (simp_all add: onCall_def)

lemma session_onCall_answered:
  assumes "mediaStreamRef s = Some m"
  shows "answered (onCall c s) = answered s @ [(c, m)]"
    and "pendingCalls (onCall c s) = pendingCalls s"
    and "mediaStreamRef (onCall c s) = Some m"
  using assms by (simp_all add: onCall_def)

lemma session_handleMotionDetected:
  "answered (handleMotionDetected now date img s) = answered s"
  "pendingCalls (handleMotionDetected now date img s) = pendingCalls s"
  "mediaStreamRef (handleMotionDetected now date img s) = mediaStreamRef s"
  by (simp_all add: handleMotionDetected_def submit_def)

lemma session_drawAndCompare:
  "answered (drawAndCompare now date video s) = answered s"
  "pendingCalls (drawAndCompare now date video s) = pendingCalls s"
  "mediaStreamRef (drawAndCompare now date video s) = mediaStreamRef s"
  by (simp_all add: drawAndCompare_def session_handleMotionDetected Let_def
      split: option.split prod.split)

lemma session_detectionLoop:
  "answered (detectionLoop now date video s) = answered s"
  "pendingCalls (detectionLoop now date video s) = pendingCalls s"
  "mediaStreamRef (detectionLoop now date video s) = mediaStreamRef s"
  by (simp_all add: detectionLoop_def session_drawAndCompare)

lemma session_resume:
  assumes "handleMotionDetected_resume c outcome s = Inr s'"
  shows "answered s' = answered s" and "pendingCalls s' = pendingCalls s"
    and "mediaStreamRef s' = mediaStreamRef s"
proof -
  obtain d where d: "analyzeImage (call_image c) outcome = Inr d"
    using analyzeImage_Inr by blast
  from assms handleMotionDetected_resume_eq [OF d, of s]
  have s': "s' = s\<lparr>events := setAnalysis (call_event_id c) d (events s),
                  status := (if call_isMonitoring c then ''Monitorando...'' else status s),
                  analysisCalls := remove1 c (analysisCalls s)\<rparr>"
    by simp
  show "answered s' = answered s" and "pendingCalls s' = pendingCalls s"
    and "mediaStreamRef s' = mediaStreamRef s"
    unfolding s' by simp_all
qed

lemma calls_kept_step:
  assumes "calls_kept cs s" and "step a s = Some s'"
  shows "calls_kept (cs @ calls_of [a]) s'"
proof (cases a)
  case Toggle
  with assms(2) have "s' = toggleMonitoring s" by simp
  with assms(1) Toggle show ?thesis
    by (simp add: calls_kept_def session_toggleMonitoring)
next
  case (CameraAcquired stream)
  with assms(2) have "s' = cameraAcquired stream s" by (simp split: if_splits)
  with assms(1) CameraAcquired show ?thesis
    by (simp add: calls_kept_def session_cameraAcquired comp_def)
next
  case (CameraFailed err)
  with assms(2) have "s' = cameraFailed err s" by (simp split: if_splits)
  with assms(1) CameraFailed show ?thesis
    by (simp add: calls_kept_def session_cameraFailed)
next
  case (InboundCall c)
  with assms(2) have s': "s' = onCall c s" by simp
  show ?thesis
  proof (cases "mediaStreamRef s")
    case None
    with assms(1) InboundCall show ?thesis
      unfolding s' by (simp add: calls_kept_def session_onCall_queued)
  next
    case (Some m)
    with assms(1) InboundCall show ?thesis
      unfolding s' by (auto simp: calls_kept_def session_onCall_answered)
  qed
next
  case (AnimationFrame now date video)
  with assms(2) have "s' = detectionLoop now date video (s\<lparr>frameRequested := False\<rparr>)"
    by (simp split: if_splits)
  with assms(1) AnimationFrame show ?thesis
    by (simp add: calls_kept_def session_detectionLoop)
next
  case (AnalysisSettled c outcome)
  with assms(2) have "handleMotionDetected_resume c outcome s = Inr s'"
    by (simp split: if_splits sum.splits)
  from session_resume [OF this] assms(1) AnalysisSettled show ?thesis
    by (simp add: calls_kept_def)
qed

lemma calls_of_append: "calls_of (xs @ ys) = calls_of xs @ calls_of ys"
  by (induction xs rule: calls_of.induct) simp_all

lemma calls_kept_run:
  "calls_kept cs s \<Longrightarrow> run acts s = Some s' \<Longrightarrow> calls_kept (cs @ calls_of acts) s'"
proof (induction acts arbitrary: cs s)
  case Nil
  then show ?case by simp
next
  case (Cons a acts)
  from Cons.prems(2) obtain s1 where s1: "step a s = Some s1" "run acts s1 = Some s'"
    by (auto split: option.splits)
  have "calls_kept (cs @ calls_of [a]) s1"
    by (rule calls_kept_step [OF Cons.prems(1) s1(1)])
  from Cons.IH [OF this s1(2)] have "calls_kept ((cs @ calls_of [a]) @ calls_of acts) s'" .
  moreover have "calls_of (a # acts) = calls_of [a] @ calls_of acts"
    using calls_of_append [of "[a]" acts] by simp
  ultimately show ?case by simp
qed

lemma pending_call_waits:
  assumes "mediaStreamRef s = None" and "step a s = Some s'"
    and "\<forall>stream. a \<noteq> CameraAcquired stream"
  shows "answered s' = answered s \<and> pendingCalls s' = pendingCalls s @ calls_of [a]"
proof (cases a)
  case Toggle
  with assms(2) show ?thesis by (auto simp: session_toggleMonitoring)
next
  case (CameraAcquired stream)
  with assms(3) show ?thesis by simp
next
  case (CameraFailed err)
  with assms(2) show ?thesis by (auto simp: session_cameraFailed split: if_splits)
next
  case (InboundCall c)
  with assms(1,2) show ?thesis by (auto simp: session_onCall_queued)
next
  case (AnimationFrame now date video)
  with assms(2) show ?thesis by (auto simp: session_detectionLoop split: if_splits)
next
  case (AnalysisSettled c outcome)
  with assms(2) have "handleMotionDetected_resume c outcome s = Inr s'"
    by (simp split: if_splits sum.splits)
  from session_resume [OF this] AnalysisSettled show ?thesis by simp
qed

lemma count_list_distinct: "distinct xs \<Longrightarrow> x \<in> set xs \<Longrightarrow> count_list xs x = 1"
  by (induction xs) auto

text \<open>
  Claim C4. A call that arrives while \<open>mediaStreamRef\<close> is empty is appended to
  \<open>pendingCalls\<close> and not answered; until the camera is acquired no step answers it or
  removes it from the queue. When the camera is acquired every queued call is answered with
  the new stream and the queue is emptied. A call that arrives while a stream is present
  is answered at once with that stream. Over every run of the component that starts with
  no call queued or answered, each inbound call (the calls being distinct connection
  objects) is at every moment either queued or answered, never both and never twice, and
  nothing is queued while the stream is present.
\<close>

theorem inbound_calls_answered_once:
  "(mediaStreamRef s = None \<longrightarrow>
      pendingCalls (onCall c s) = pendingCalls s @ [c] \<and> answered (onCall c s) = answered s)
   \<and> (mediaStreamRef s = None \<and> step a s = Some s1 \<and> (\<forall>stream. a \<noteq> CameraAcquired stream) \<longrightarrow>
      answered s1 = answered s \<and> pendingCalls s1 = pendingCalls s @ calls_of [a])
   \<and> answered (cameraAcquired stream s) = answered s @ map (\<lambda>c. (c, stream)) (pendingCalls s)
   \<and> pendingCalls (cameraAcquired stream s) = []
   \<and> (mediaStreamRef s = Some m \<longrightarrow>
      answered (onCall c s) = answered s @ [(c, m)] \<and> pendingCalls (onCall c s) = pendingCalls s)
   \<and> (pendingCalls s0 = [] \<and> answered s0 = [] \<and> run acts s0 = Some s' \<and> distinct (calls_of acts) \<longrightarrow>
        (\<forall>x \<in> set (calls_of acts).
            count_list (map fst (answered s')) x + count_list (pendingCalls s') x = 1)
        \<and> (mediaStreamRef s' = None \<or> pendingCalls s' = []))"
proof (intro conjI impI)
  assume "mediaStreamRef s = None"
  then show "pendingCalls (onCall c s) = pendingCalls s @ [c]" and "answered (onCall c s) = answered s"
    by (simp_all add: session_onCall_queued)
next
  assume "mediaStreamRef s = None \<and> step a s = Some s1 \<and> (\<forall>stream. a \<noteq> CameraAcquired stream)"
  then have "answered s1 = answered s \<and> pendingCalls s1 = pendingCalls s @ calls_of [a]"
    using pending_call_waits by blast
  then show "answered s1 = answered s" and "pendingCalls s1 = pendingCalls s @ calls_of [a]"
    by blast+
next
  show "answered (cameraAcquired stream s) = answered s @ map (\<lambda>c. (c, stream)) (pendingCalls s)"
    and "pendingCalls (cameraAcquired stream s) = []"
    by (rule session_cameraAcquired)+
next
  assume "mediaStreamRef s = Some m"
  then show "answered (onCall c s) = answered s @ [(c, m)]" and "pendingCalls (onCall c s) = pendingCalls s"
    by (simp_all add: session_onCall_answered)
next
  assume h: "pendingCalls s0 = [] \<and> answered s0 = [] \<and> run acts s0 = Some s' \<and> distinct (calls_of acts)"
  then have "calls_kept [] s0" by (simp add: calls_kept_def)
  with h calls_kept_run [of "[]" s0 acts s'] have k: "calls_kept (calls_of acts) s'" by simp
  then show "mediaStreamRef s' = None \<or> pendingCalls s' = []"
    by (simp add: calls_kept_def)
  show "\<forall>x \<in> set (calls_of acts).
            count_list (map fst (answered s')) x + count_list (pendingCalls s') x = 1"
  proof
    fix x assume "x \<in> set (calls_of acts)"
    with h have "count_list (calls_of acts) x = 1" by (simp add: count_list_distinct)
    with k show "count_list (map fst (answered s')) x + count_list (pendingCalls s') x = 1"
      by (simp add: calls_kept_def)
  qed
qed

theorem inbound_calls_answered_once_witness:
  "mediaStreamRef (initial True) = None
   \<and> pendingCalls (onCall 5 (initial True)) = [5]
   \<and> answered (onCall 5 (initial True)) = []
   \<and> mediaStreamRef (cameraAcquired 1 (toggleMonitoring (onCall 5 (initial True)))) = Some 1
   \<and> answered (cameraAcquired 1 (toggleMonitoring (onCall 5 (initial True)))) = [(5, 1)]
   \<and> answered (onCall 7 (cameraAcquired 1 (toggleMonitoring (onCall 5 (initial True))))) = [(5, 1), (7, 1)]
   \<and> distinct (calls_of [InboundCall 5, Toggle, InboundCall 6, CameraAcquired 1, InboundCall 7])
   \<and> (\<exists>s'. run [InboundCall 5, Toggle, InboundCall 6, CameraAcquired 1, InboundCall 7] (initial True) = Some s'
          \<and> count_list (map fst (answered s')) 5 + count_list (pendingCalls s') 5 = 1
          \<and> count_list (map fst (answered s')) 6 + count_list (pendingCalls s') 6 = 1
          \<and> count_list (map fst (answered s')) 7 + count_list (pendingCalls s') 7 = 1
          \<and> mediaStreamRef s' = Some 1
          \<and> pendingCalls s' = [])"
proof -
  let ?s0 = "initial True"
  let ?s2 = "cameraAcquired 1 (toggleMonitoring (onCall 5 ?s0))"
  let ?acts = "[InboundCall 5, Toggle, InboundCall 6, CameraAcquired 1, InboundCall 7]"
  have n: "mediaStreamRef ?s0 = None" "pendingCalls ?s0 = []" "answered ?s0 = []"
    by (simp_all add: initial_def)
  have m: "mediaStreamRef ?s2 = Some 1"
    by (simp add: session_cameraAcquired)
  have d: "distinct (calls_of ?acts)"
    by simp
  have "\<exists>s'. run ?acts ?s0 = Some s' \<and> mediaStreamRef s' = Some 1"
    by (simp add: lifecycle_defs initial_def)
  then obtain s' where r: "run ?acts ?s0 = Some s'" "mediaStreamRef s' = Some 1" by blast
  note t0 = inbound_calls_answered_once [of ?s0 5 "InboundCall 6" "onCall 6 ?s0" 1 1 ?s0 ?acts s']
  note t2 = inbound_calls_answered_once [of ?s2 7 "InboundCall 6" "onCall 6 ?s2" 1 1 ?s0 ?acts s']
  from t0 n have q: "pendingCalls (onCall 5 ?s0) = [5]" "answered (onCall 5 ?s0) = []"
    by simp_all
  from t0 n q have a2: "answered ?s2 = [(5, 1)]"
    by (simp add: session_cameraAcquired session_toggleMonitoring)
  from t2 m a2 have a7: "answered (onCall 7 ?s2) = [(5, 1), (7, 1)]"
    by simp
  from t0 n r d have c: "\<forall>x \<in> set (calls_of ?acts).
            count_list (map fst (answered s')) x + count_list (pendingCalls s') x = 1"
      and e: "mediaStreamRef s' = None \<or> pendingCalls s' = []"
    by blast+
  from e r(2) have p: "pendingCalls s' = []" by simp
  from c have c': "count_list (map fst (answered s')) 5 + count_list (pendingCalls s') 5 = 1"
      "count_list (map fst (answered s')) 6 + count_list (pendingCalls s') 6 = 1"
      "count_list (map fst (answered s')) 7 + count_list (pendingCalls s') 7 = 1"
    by simp_all
  from n(1) q m a2 a7 d r c' p show ?thesis by blast
qed

section \<open>Event ids are distinct when the capture times are\<close>








section \<open>The analysis pipeline keeps its books\<close>























text \<open>
  Equal capture times are within reach of the component itself: the cooldown is reset when
  monitoring restarts, so a detection of the new session is accepted even when
  \<open>Date.now()\<close> returns the value of an earlier detection (a wall clock that was set
  back), and the two events then carry the same id.
\<close>

lemma motion_detected_replicate:
  assumes "0 < n"
  shows "motion_detected (replicate (4 * n) a) (replicate (4 * n) b)
         = (3 * real_of_int \<bar>uint a - uint b\<bar> > 50)"
proof -
  have u: "differs_uniformly (replicate (4 * n) a) (replicate (4 * n) b) \<bar>uint a - uint b\<bar>"
    by (simp add: differs_uniformly_def list_all_iff)
  have l: "length (replicate (4 * n) b) = length (replicate (4 * n) a)"
      "length (replicate (4 * n) a) mod 4 = 0" "replicate (4 * n) a \<noteq> []"
    using assms by simp_all
  have "motion_score (replicate (4 * n) a) (replicate (4 * n) b)
        = Some (3 * real_of_int \<bar>uint a - uint b\<bar>)"
    using motion_score_eq [OF l] spec_score_uniform [OF u l(2,3)] by simp
  then show ?thesis
    by (simp add: motion_detected_def MOTION_SENSITIVITY_def)
qed

lemma duplicate_ids_across_restart:
  "map_option (\<lambda>s. map event_id (events s))
     (run [Toggle, CameraAcquired 1,
           AnimationFrame 1700000000000 1700000000000 (Some (replicate (4 * 320 * 240) 255, ''a'')),
           Toggle, Toggle, CameraAcquired 2,
           AnimationFrame 1700000000000 1700000000000 (Some (replicate (4 * 320 * 240) 0, ''b''))]
        (initial True))
   = Some [toString 1700000000000, toString 1700000000000]"
proof -
  let ?T = "1700000000000 :: int"
  let ?white = "replicate (4 * 320 * 240) (255 :: 8 word)"
  let ?black = "replicate (4 * 320 * 240) (0 :: 8 word)"
  let ?f1 = "AnimationFrame ?T ?T (Some (?white, ''a''))"
  let ?f2 = "AnimationFrame ?T ?T (Some (?black, ''b''))"
  have md1: "motion_detected ?white (replicate (4 * 320 * 240) 0)"
    using motion_detected_replicate [of "320 * 240" 255 0] by simp
  have md2: "motion_detected ?black ?white"
    using motion_detected_replicate [of "320 * 240" 0 255] by simp
  define s2 where "s2 = (initial True)\<lparr>isMonitoring := True, status := ''Monitorando...'',
          hasCameraPermission := Some True, mediaStreamRef := Some 1,
          videoSrc := Some 1, frameRequested := True\<rparr>"
  have r2: "run [Toggle, CameraAcquired 1] (initial True) = Some s2"
    unfolding s2_def by (rule started_state)
  define s3 where "s3 = detectionLoop ?T ?T (Some (?white, ''a'')) (s2\<lparr>frameRequested := False\<rparr>)"
  have st3: "step ?f1 s2 = Some s3"
    by (simp add: s3_def s2_def)
  have p3: "events s3 = [newEvent ?T ?T ''a'']" "oldCanvas s3 = ?white" "isMonitoring s3"
      "hasCameraPermission s3 = Some True" "mediaDevicesSupported s3"
    using md1
    by (simp_all add: s3_def s2_def detectionLoop_def drawAndCompare_def handleMotionDetected_def
        submit_def COOLDOWN_SECONDS_def initial_def)
  define s5 where "s5 = toggleMonitoring (toggleMonitoring s3)"
  have p5: "events s5 = [newEvent ?T ?T ''a'']" "oldCanvas s5 = ?white" "isMonitoring s5"
      "lastDetectionTime s5 = 0" "cameraRequests s5 \<noteq> 0" "hasCameraPermission s5 = Some True"
      "frameRequested s5"
    using p3 by (simp_all add: s5_def lifecycle_defs)
  define s6 where "s6 = cameraAcquired 2 s5"
  have st6: "step (CameraAcquired 2) s5 = Some s6"
    using p5(5) by (simp add: s6_def)
  have p6: "events s6 = [newEvent ?T ?T ''a'']" "oldCanvas s6 = ?white" "isMonitoring s6"
      "lastDetectionTime s6 = 0" "frameRequested s6" "videoSrc s6 = Some 2"
    using p5 by (simp_all add: s6_def lifecycle_defs)
  define s7 where "s7 = detectionLoop ?T ?T (Some (?black, ''b'')) (s6\<lparr>frameRequested := False\<rparr>)"
  have st7: "step ?f2 s6 = Some s7"
    using p6(5,6) by (simp add: s7_def)
  have p7: "events s7 = [newEvent ?T ?T ''b'', newEvent ?T ?T ''a'']"
    using md2 p6(1-4)
    by (simp add: s7_def detectionLoop_def drawAndCompare_def handleMotionDetected_def
        submit_def COOLDOWN_SECONDS_def)
  have "run ([Toggle, CameraAcquired 1] @ [?f1, Toggle, Toggle, CameraAcquired 2, ?f2]) (initial True)
        = run [?f1, Toggle, Toggle, CameraAcquired 2, ?f2] s2"
    by (simp only: run_append r2 option.case)
  also have "\<dots> = run [CameraAcquired 2, ?f2] s5"
    by (simp only: run.simps st3 option.case step.simps(1) s5_def)
  also have "\<dots> = Some s7"
    by (simp only: run.simps st6 st7 option.case)
  finally have "run [Toggle, CameraAcquired 1, ?f1, Toggle, Toggle, CameraAcquired 2, ?f2] (initial True)
        = Some s7"
    by simp
  then show ?thesis
    by (simp only: option.map p7) (simp add: newEvent_def)
qed

end
